theory Spec2Isabelle
  imports Main "HOL-Library.Sublist"
begin

section \<open>The Python string operations used by branch\_vacuum.py\<close>

text \<open>
  Data strings (command output, branch names, paths, typed answers) are \<^typ>\<open>string\<close>:
  a list of characters with code points 0 to 255, each \<^typ>\<open>char\<close> standing for the
  Python character with that code point. On this range the three character classes
  below are the ones of Python's \<^verbatim>\<open>str\<close>; characters beyond U+00FF are outside the
  type and outside every statement of this theory.
\<close>

definition isspace :: "char \<Rightarrow> bool" where
  \<comment> \<open>\<^verbatim>\<open>str.isspace\<close> on one character: TAB, LF, VT, FF, CR, FS, GS, RS, US, space,
      NEL (U+0085) and the no-break space (U+00A0).\<close>
  "isspace c =
     (let n = (of_char c :: nat)
      in (9 \<le> n \<and> n \<le> 13) \<or> (28 \<le> n \<and> n \<le> 32) \<or> n = 133 \<or> n = 160)"

definition is_linebreak :: "char \<Rightarrow> bool" where
  \<comment> \<open>The line boundaries of \<^verbatim>\<open>str.splitlines\<close>: LF, VT, FF, CR, FS, GS, RS and NEL.\<close>
  "is_linebreak c =
     (let n = (of_char c :: nat)
      in (10 \<le> n \<and> n \<le> 13) \<or> (28 \<le> n \<and> n \<le> 30) \<or> n = 133)"

definition lower_char :: "char \<Rightarrow> char" where
  \<comment> \<open>\<^verbatim>\<open>str.lower\<close> on one character: A to Z and U+00C0 to U+00DE (the multiplication
      sign U+00D7 apart) move up by 32, every other character stays.\<close>
  "lower_char c =
     (let n = (of_char c :: nat)
      in if (65 \<le> n \<and> n \<le> 90) \<or> (192 \<le> n \<and> n \<le> 222 \<and> n \<noteq> 215)
         then char_of (n + 32) else c)"

definition lower :: "string \<Rightarrow> string" where
  "lower s = map lower_char s"

definition lstrip :: "string \<Rightarrow> string" where
  "lstrip s = dropWhile isspace s"

definition rstrip :: "string \<Rightarrow> string" where
  "rstrip s = rev (dropWhile isspace (rev s))"

definition strip :: "string \<Rightarrow> string" where
  \<comment> \<open>\<^verbatim>\<open>s.strip()\<close>: the whitespace at both ends is removed.\<close>
  "strip s = rstrip (lstrip s)"

definition startswith :: "string \<Rightarrow> string \<Rightarrow> bool" where
  \<comment> \<open>\<^verbatim>\<open>s.startswith(p)\<close>\<close>
  "startswith s p = (take (length p) s = p)"

fun replace1 :: "string \<Rightarrow> string \<Rightarrow> string \<Rightarrow> string" where
  \<comment> \<open>\<^verbatim>\<open>s.replace(old, new, 1)\<close>: the leftmost occurrence of \<open>old\<close> is replaced, and
      \<open>s\<close> is returned as it is when there is none.\<close>
  "replace1 [] old new = (if old = [] then new else [])"
| "replace1 (c # cs) old new =
     (if startswith (c # cs) old then new @ drop (length old) (c # cs)
      else c # replace1 cs old new)"

definition skip_eol :: "string \<Rightarrow> string" where
  \<comment> \<open>One line boundary is consumed: CR LF counts as a single boundary.\<close>
  "skip_eol s =
     (case s of
        [] \<Rightarrow> []
      | c # cs \<Rightarrow>
          (if c = CHR 0x0D then (case cs of [] \<Rightarrow> [] | d # ds \<Rightarrow> if d = CHR 0x0A then ds else cs)
           else cs))"

lemma length_skip_eol: "length (skip_eol s) \<le> length s"
  by (simp add: skip_eol_def split: list.split)

lemma length_skip_eol_less: "s \<noteq> [] \<Longrightarrow> length (skip_eol s) < length s"
  by (simp add: skip_eol_def split: list.split)

lemma length_skip_eol_dropWhile:
  "s \<noteq> [] \<Longrightarrow> length (skip_eol (dropWhile P s)) < length s"
proof (cases "dropWhile P s = []")
  case True
  assume "s \<noteq> []"
  then have "0 < length s" by simp
  moreover have "skip_eol (dropWhile P s) = []"
    unfolding True by (simp add: skip_eol_def)
  ultimately show ?thesis by simp
next
  case False
  then have "length (skip_eol (dropWhile P s)) < length (dropWhile P s)"
    by (rule length_skip_eol_less)
  also have "\<dots> \<le> length s"
    by (rule length_dropWhile_le)
  finally show ?thesis .
qed

function splitlines :: "string \<Rightarrow> string list" where
  \<comment> \<open>\<^verbatim>\<open>s.splitlines()\<close>: the text up to the next line boundary is one line, the
      boundary is dropped, and a boundary at the very end opens no further line.\<close>
  "splitlines s =
     (if s = [] then []
      else takeWhile (\<lambda>c. \<not> is_linebreak c) s
             # splitlines (skip_eol (dropWhile (\<lambda>c. \<not> is_linebreak c) s)))"
  by pat_completeness auto
termination
  by (relation "measure length") (simp_all add: length_skip_eol_dropWhile)

declare splitlines.simps [simp del]

section \<open>The process: external tool, terminal, exceptions\<close>

text \<open>
  Printed text is a list of Unicode code points, since the status lines of the source
  start with symbols beyond U+00FF; \<open>str\<close> embeds a data string into it.
\<close>

type_synonym utext = "nat list"

definition str :: "string \<Rightarrow> utext" where
  "str s = map of_char s"

datatype event =
    Print utext            \<comment> \<open>a line written by \<^verbatim>\<open>print\<close>\<close>
  | Prompt utext           \<comment> \<open>the prompt written by one call of \<^verbatim>\<open>input\<close>\<close>
  | Run "string list"      \<comment> \<open>one call of \<^verbatim>\<open>subprocess.run\<close>, with its command line\<close>

datatype exn =
    CalledProcessError "string list" int
  | EOFError

text \<open>
  The external tool is a parameter: from its world and a command line it gives the exit
  status, the standard output and the world it leaves behind.
\<close>

type_synonym 'w tool = "'w \<Rightarrow> string list \<Rightarrow> int \<times> string \<times> 'w"

record 'w state =
  world :: 'w
  stdin :: "string list"     \<comment> \<open>the lines still to be read, without their line ends\<close>
  trace :: "event list"      \<comment> \<open>what the process has done so far, oldest first\<close>

definition py_print :: "utext \<Rightarrow> 'w state \<Rightarrow> 'w state" where
  "py_print t s = s\<lparr>trace := trace s @ [Print t]\<rparr>"

definition py_input :: "utext \<Rightarrow> 'w state \<Rightarrow> (exn + string) \<times> 'w state" where
  \<comment> \<open>\<^verbatim>\<open>input(prompt)\<close>: the prompt is written, one line is read; at the end of the
      input \<^verbatim>\<open>EOFError\<close> is raised.\<close>
  "py_input p s =
     (case stdin s of
        [] \<Rightarrow> (Inl EOFError, s\<lparr>trace := trace s @ [Prompt p]\<rparr>)
      | l # ls \<Rightarrow> (Inr l, s\<lparr>stdin := ls, trace := trace s @ [Prompt p]\<rparr>))"

definition subprocess_run :: "'w tool \<Rightarrow> string list \<Rightarrow> 'w state \<Rightarrow> (exn + string) \<times> 'w state" where
  \<comment> \<open>\<^verbatim>\<open>subprocess.run(cmd, check=True)\<close>: a non-zero exit status raises
      \<^verbatim>\<open>CalledProcessError\<close>.\<close>
  "subprocess_run tool cmd s =
     (case tool (world s) cmd of
        (rc, out, w') \<Rightarrow>
          (let s' = s\<lparr>world := w', trace := trace s @ [Run cmd]\<rparr>
           in if rc \<noteq> 0 then (Inl (CalledProcessError cmd rc), s') else (Inr out, s')))"

section \<open>branch\_vacuum.py\<close>

definition run_git_command ::
  "'w tool \<Rightarrow> string list \<Rightarrow> string \<Rightarrow> bool \<Rightarrow> 'w state \<Rightarrow> (exn + string list) \<times> 'w state" where
  \<comment> \<open>The parameter \<^verbatim>\<open>silent\<close> of the source is never read and is left out.\<close>
  "run_git_command tool args repo_dir capture s =
     (case subprocess_run tool ([''git'', ''-C'', repo_dir] @ args) s of
        (Inl e, s') \<Rightarrow> (Inl e, s')
      | (Inr stdout, s') \<Rightarrow>
          (if capture then (Inr (splitlines (strip stdout)), s') else (Inr [], s')))"

definition get_local_branches :: "'w tool \<Rightarrow> string \<Rightarrow> 'w state \<Rightarrow> (exn + string list) \<times> 'w state" where
  "get_local_branches tool repo_dir s =
     run_git_command tool [''branch'', ''--format'', ''%(refname:short)''] repo_dir True s"

definition strip_origin :: "string list \<Rightarrow> string list" where
  \<comment> \<open>The list comprehension of \<^verbatim>\<open>get_remote_branches\<close>.\<close>
  "strip_origin branches =
     [replace1 (strip b) ''origin/'' [] . b \<leftarrow> branches, startswith (strip b) ''origin/'']"

definition get_remote_branches :: "'w tool \<Rightarrow> string \<Rightarrow> 'w state \<Rightarrow> (exn + string list) \<times> 'w state" where
  "get_remote_branches tool repo_dir s =
     (case run_git_command tool [''branch'', ''-r'', ''--format'', ''%(refname:short)''] repo_dir True s of
        (Inl e, s') \<Rightarrow> (Inl e, s')
      | (Inr branches, s') \<Rightarrow> (Inr (strip_origin branches), s'))"

definition deleted_msg :: "string \<Rightarrow> utext" where
  "deleted_msg branch = [0x2705] @ str '' Deleted branch: '' @ str branch"

definition delete_failed_msg :: "string \<Rightarrow> utext" where
  "delete_failed_msg branch =
     [0x274C] @ str '' Could not delete branch '' @ [0x27] @ str branch @ [0x27]
       @ str ''. Maybe it's the current branch?''"

definition delete_cmd :: "string \<Rightarrow> string \<Rightarrow> bool \<Rightarrow> string list" where
  \<comment> \<open>The command line \<^verbatim>\<open>cmd\<close> built by \<^verbatim>\<open>delete_branch\<close>.\<close>
  "delete_cmd branch repo_dir force =
     [''git'', ''-C'', repo_dir, ''branch'', if force then ''-D'' else ''-d'', branch]"

definition delete_branch ::
  "'w tool \<Rightarrow> string \<Rightarrow> string \<Rightarrow> bool \<Rightarrow> 'w state \<Rightarrow> (exn + unit) \<times> 'w state" where
  "delete_branch tool branch repo_dir force s =
     (case subprocess_run tool (delete_cmd branch repo_dir force) s of
        (Inr _, s') \<Rightarrow> (Inr (), py_print (deleted_msg branch) s')
      | (Inl (CalledProcessError _ _), s') \<Rightarrow> (Inr (), py_print (delete_failed_msg branch) s')
      | (Inl e, s') \<Rightarrow> (Inl e, s'))"

record args =
  repo :: string
  safe :: bool

datatype outcome =
    Returned           \<comment> \<open>\<^verbatim>\<open>main\<close> returns, the process ends with status 0\<close>
  | SystemExit int     \<comment> \<open>\<^verbatim>\<open>sys.exit(code)\<close>\<close>
  | Uncaught exn       \<comment> \<open>an exception leaves \<^verbatim>\<open>main\<close>\<close>

definition invalid_repo_msg :: "string \<Rightarrow> utext" where
  "invalid_repo_msg repo_dir =
     [0x274C] @ str '' '' @ str repo_dir @ str '' is not a valid git repository.''"

definition fetching_msg :: utext where
  "fetching_msg = [0x1F504] @ str '' Fetching latest remote info...''"

definition fetch_complete_msg :: utext where
  "fetch_complete_msg = [0x2705] @ str '' Fetch complete.''"

definition nothing_found_msg :: utext where
  "nothing_found_msg = [0x1F389] @ str '' No local-only branches found.''"

definition prompt_msg :: "string \<Rightarrow> utext" where
  "prompt_msg branch =
     str ''Branch '' @ [0x27] @ str branch @ [0x27] @ str '' exists only locally. Delete? [y/N]: ''"

definition keeping_msg :: "string \<Rightarrow> utext" where
  "keeping_msg branch = [0x27A1, 0xFE0F] @ str '' Keeping branch: '' @ str branch"

definition guidance_msg :: utext where
  "guidance_msg = str ''Please answer with 'y' or 'n'.''"

definition only_local :: "string list \<Rightarrow> string list \<Rightarrow> string list" where
  \<comment> \<open>The list comprehension of \<^verbatim>\<open>main\<close> that computes \<^verbatim>\<open>only_local\<close>.\<close>
  "only_local local_branches remote_branches =
     [b \<leftarrow> local_branches. b \<notin> set remote_branches \<and> b \<notin> set [''main'', ''master'']]"

definition choice_of :: "string \<Rightarrow> string" where
  \<comment> \<open>\<^verbatim>\<open>.strip().lower()\<close> of the line read.\<close>
  "choice_of line = lower (strip line)"

lemma py_input_stdin:
  "py_input p s = (Inr l, s') \<Longrightarrow> length (stdin s') < length (stdin s)"
  by (auto simp: py_input_def split: list.splits)

function while_loop ::
  "'w tool \<Rightarrow> string \<Rightarrow> string \<Rightarrow> bool \<Rightarrow> 'w state \<Rightarrow> (exn + unit) \<times> 'w state" where
  \<comment> \<open>The \<^verbatim>\<open>while True\<close> loop of \<^verbatim>\<open>main\<close> for one branch.\<close>
  "while_loop tool branch repo_dir sf s =
     (case py_input (prompt_msg branch) s of
        (Inl e, s1) \<Rightarrow> (Inl e, s1)
      | (Inr line, s1) \<Rightarrow>
          (let choice = choice_of line
           in if choice = ''y'' then delete_branch tool branch repo_dir (\<not> sf) s1
              else if choice \<in> set [''n'', []] then (Inr (), py_print (keeping_msg branch) s1)
              else while_loop tool branch repo_dir sf (py_print guidance_msg s1)))"
  by pat_completeness auto
termination
  by (relation "measure (\<lambda>(tool, branch, repo_dir, sf, s). length (stdin s))")
     (auto simp: py_print_def dest: py_input_stdin [OF sym])

declare while_loop.simps [simp del]

fun for_loop ::
  "'w tool \<Rightarrow> string list \<Rightarrow> string \<Rightarrow> bool \<Rightarrow> 'w state \<Rightarrow> (exn + unit) \<times> 'w state" where
  \<comment> \<open>The \<^verbatim>\<open>for branch in only_local\<close> loop of \<^verbatim>\<open>main\<close>.\<close>
  "for_loop tool [] repo_dir sf s = (Inr (), s)"
| "for_loop tool (branch # rest) repo_dir sf s =
     (case while_loop tool branch repo_dir sf s of
        (Inl e, s1) \<Rightarrow> (Inl e, s1)
      | (Inr _, s1) \<Rightarrow> for_loop tool rest repo_dir sf s1)"

definition main :: "'w tool \<Rightarrow> args \<Rightarrow> 'w state \<Rightarrow> outcome \<times> 'w state" where
  \<comment> \<open>\<^verbatim>\<open>main\<close> from the parsed arguments on: \<open>a\<close> is what \<^verbatim>\<open>parse_args\<close> returned.\<close>
  "main tool a s0 =
     (let repo_dir = repo a in
      case run_git_command tool [''rev-parse'', ''--is-inside-work-tree''] repo_dir True s0 of
        (Inl (CalledProcessError _ _), s1) \<Rightarrow> (SystemExit 1, py_print (invalid_repo_msg repo_dir) s1)
      | (Inl e, s1) \<Rightarrow> (Uncaught e, s1)
      | (Inr _, s1) \<Rightarrow>
      (case run_git_command tool [''fetch'', ''--prune''] repo_dir False (py_print fetching_msg s1) of
        (Inl e, s2) \<Rightarrow> (Uncaught e, s2)
      | (Inr _, s2) \<Rightarrow>
      (case get_local_branches tool repo_dir (py_print fetch_complete_msg s2) of
        (Inl e, s3) \<Rightarrow> (Uncaught e, s3)
      | (Inr local_branches, s3) \<Rightarrow>
      (case get_remote_branches tool repo_dir s3 of
        (Inl e, s4) \<Rightarrow> (Uncaught e, s4)
      | (Inr remote_branches, s4) \<Rightarrow>
          (if only_local local_branches remote_branches = []
           then (Returned, py_print nothing_found_msg s4)
           else (case for_loop tool (only_local local_branches remote_branches) repo_dir (safe a) s4 of
                   (Inl e, s5) \<Rightarrow> (Uncaught e, s5)
                 | (Inr _, s5) \<Rightarrow> (Returned, s5)))))))"

section \<open>Concrete runs and the properties the specification names\<close>

definition table_tool :: "(string list \<times> int \<times> string) list \<Rightarrow> unit tool" where
  \<comment> \<open>A tool for concrete runs: a command line listed in the table gets the exit status and
      output given there, every other command line succeeds with no output.\<close>
  "table_tool tab w cmd =
     (case map_of tab cmd of None \<Rightarrow> (0, [], w) | Some (rc, out) \<Rightarrow> (rc, out, w))"

definition init :: "string list \<Rightarrow> unit state" where
  \<comment> \<open>The state at the start of a concrete run, with the lines that will be typed.\<close>
  "init ins = \<lparr>world = (), stdin = ins, trace = []\<rparr>"

definition nonempty_trimmed :: "string \<Rightarrow> bool" where
  \<comment> \<open>The specification's "non-empty trimmed" line.\<close>
  "nonempty_trimmed l = (l \<noteq> [] \<and> strip l = l)"

definition normalized_name :: "string \<Rightarrow> bool" where
  \<comment> \<open>The specification's normalized branch name: non-empty and free of the qualifier.\<close>
  "normalized_name n = (n \<noteq> [] \<and> \<not> startswith n ''origin/'')"

definition deleter_calls :: "string \<Rightarrow> string \<Rightarrow> event list \<Rightarrow> nat" where
  \<comment> \<open>How often a trace runs the command line of \<open>delete_branch\<close> for a branch, in
      either mode.\<close>
  "deleter_calls branch repo_dir tr =
     length [e \<leftarrow> tr. e = Run (delete_cmd branch repo_dir True) \<or> e = Run (delete_cmd branch repo_dir False)]"

definition resolutions :: "string \<Rightarrow> string \<Rightarrow> event list \<Rightarrow> nat" where
  \<comment> \<open>How often a trace settles a branch: by keeping it or by running its deletion.\<close>
  "resolutions branch repo_dir tr =
     count_list tr (Print (keeping_msg branch)) + deleter_calls branch repo_dir tr"

fun yes_first :: "string list \<Rightarrow> bool" where
  \<comment> \<open>The first line that is an answer ("y", "n" or empty after trimming and lowercasing)
      is a "y".\<close>
  "yes_first [] = False"
| "yes_first (l # ls) =
     (if choice_of l = ''y'' then True
      else if choice_of l = ''n'' \<or> choice_of l = [] then False
      else yes_first ls)"

definition fixed_cmds :: "string \<Rightarrow> string list set" where
  \<comment> \<open>The four command lines that \<open>main\<close> runs before the loop.\<close>
  "fixed_cmds r =
     {[''git'', ''-C'', r, ''rev-parse'', ''--is-inside-work-tree''],
      [''git'', ''-C'', r, ''fetch'', ''--prune''],
      [''git'', ''-C'', r, ''branch'', ''--format'', ''%(refname:short)''],
      [''git'', ''-C'', r, ''branch'', ''-r'', ''--format'', ''%(refname:short)'']}"

section \<open>Facts about the string operations\<close>

lemma is_linebreak_isspace: "is_linebreak c \<Longrightarrow> isspace c"
  by (auto simp: is_linebreak_def isspace_def Let_def)

lemma splitlines_Nil: "splitlines [] = []"
  by (simp add: splitlines.simps)

lemma splitlines_Cons:
  "splitlines (c # cs) =
     takeWhile (\<lambda>c. \<not> is_linebreak c) (c # cs)
       # splitlines (skip_eol (dropWhile (\<lambda>c. \<not> is_linebreak c) (c # cs)))"
  by (subst splitlines.simps) simp

lemmas strip_eval = strip_def lstrip_def rstrip_def isspace_def

lemmas splitlines_eval = splitlines_Nil splitlines_Cons skip_eol_def is_linebreak_def

lemma filter_skip_eol:
  "s = [] \<or> is_linebreak (hd s) \<Longrightarrow>
     filter (\<lambda>c. \<not> is_linebreak c) (skip_eol s) = filter (\<lambda>c. \<not> is_linebreak c) s"
  by (auto simp: skip_eol_def is_linebreak_def split: list.splits)

lemma hd_dropWhile_linebreak:
  "dropWhile (\<lambda>c. \<not> is_linebreak c) s = []
     \<or> is_linebreak (hd (dropWhile (\<lambda>c. \<not> is_linebreak c) s))"
  using hd_dropWhile [of "\<lambda>c. \<not> is_linebreak c" s] by auto

lemma concat_splitlines:
  "concat (splitlines s) = filter (\<lambda>c. \<not> is_linebreak c) s"
proof (induction s rule: splitlines.induct)
  case (1 s)
  show ?case
  proof (cases "s = []")
    case True
    then show ?thesis by (simp add: splitlines_Nil)
  next
    case False
    let ?P = "\<lambda>c. \<not> is_linebreak c"
    have eq: "splitlines s = takeWhile ?P s # splitlines (skip_eol (dropWhile ?P s))"
      using False by (subst splitlines.simps) simp
    have ih: "concat (splitlines (skip_eol (dropWhile ?P s))) = filter ?P (skip_eol (dropWhile ?P s))"
      using False by (rule "1.IH")
    have sk: "filter ?P (skip_eol (dropWhile ?P s)) = filter ?P (dropWhile ?P s)"
      by (rule filter_skip_eol [OF hd_dropWhile_linebreak])
    have tk: "filter ?P (takeWhile ?P s) = takeWhile ?P s"
      by (induction s) simp_all
    have "filter ?P s = filter ?P (takeWhile ?P s @ dropWhile ?P s)"
      by simp
    also have "\<dots> = takeWhile ?P s @ filter ?P (dropWhile ?P s)"
      unfolding filter_append tk ..
    finally show ?thesis
      unfolding eq by (simp only: concat.simps ih sk)
  qed
qed

lemma splitlines_no_linebreak:
  "l \<in> set (splitlines s) \<Longrightarrow> c \<in> set l \<Longrightarrow> \<not> is_linebreak c"
proof (induction s rule: splitlines.induct)
  case (1 s)
  show ?case
  proof (cases "s = []")
    case True
    with 1 show ?thesis by (simp add: splitlines_Nil)
  next
    case False
    let ?P = "\<lambda>c. \<not> is_linebreak c"
    have "splitlines s = takeWhile ?P s # splitlines (skip_eol (dropWhile ?P s))"
      using False by (subst splitlines.simps) simp
    with 1 False show ?thesis
      by (auto dest: set_takeWhileD)
  qed
qed

lemma splitlines_hd:
  "s \<noteq> [] \<Longrightarrow> splitlines s \<noteq> [] \<and> hd (splitlines s) = takeWhile (\<lambda>c. \<not> is_linebreak c) s"
  by (subst (1 2) splitlines.simps) simp

lemma skip_eol_suffix: "suffix (skip_eol s) s"
  by (auto simp: skip_eol_def suffix_def split: list.splits)

lemma skip_eol_Nil_last:
  "skip_eol s = [] \<Longrightarrow> s \<noteq> [] \<Longrightarrow> is_linebreak (hd s) \<Longrightarrow> is_linebreak (last s)"
  by (auto simp: skip_eol_def is_linebreak_def split: list.splits if_splits)

lemma last_suffix: "suffix xs ys \<Longrightarrow> xs \<noteq> [] \<Longrightarrow> last xs = last ys"
  by (auto simp: suffix_def)

lemma splitlines_last:
  "s \<noteq> [] \<Longrightarrow> \<not> is_linebreak (last s) \<Longrightarrow>
     splitlines s \<noteq> [] \<and> last (splitlines s) \<noteq> [] \<and> last (last (splitlines s)) = last s"
proof (induction s rule: splitlines.induct)
  case (1 s)
  let ?P = "\<lambda>c. \<not> is_linebreak c"
  let ?d = "dropWhile ?P s"
  let ?r = "skip_eol ?d"
  have eq: "splitlines s = takeWhile ?P s # splitlines ?r"
    using "1.prems" by (subst splitlines.simps) simp
  show ?case
  proof (cases "?r = []")
    case True
    have "?d = []"
    proof (rule ccontr)
      assume d: "?d \<noteq> []"
      then have "is_linebreak (hd ?d)"
        using hd_dropWhile_linebreak [of s] by blast
      with d have "is_linebreak (last ?d)"
        using skip_eol_Nil_last [OF True] by simp
      moreover have "last ?d = last s"
        using d by (metis last_appendR takeWhile_dropWhile_id)
      ultimately show False using "1.prems" by simp
    qed
    then have "takeWhile ?P s = s"
      by (metis append_Nil2 takeWhile_dropWhile_id)
    with eq True "1.prems" show ?thesis
      by (simp add: splitlines_Nil)
  next
    case False
    have suf: "suffix ?r s"
      by (meson skip_eol_suffix suffix_dropWhile suffix_order.trans)
    then have l: "last ?r = last s"
      using False by (rule last_suffix)
    with "1.IH" [OF _ False] "1.prems" have
      "splitlines ?r \<noteq> [] \<and> last (splitlines ?r) \<noteq> [] \<and> last (last (splitlines ?r)) = last s"
      by simp
    with eq show ?thesis by simp
  qed
qed

lemma strip_ends:
  "strip s = [] \<or> (\<not> isspace (hd (strip s)) \<and> \<not> isspace (last (strip s)))"
proof (cases "strip s = []")
  case True
  then show ?thesis by simp
next
  case False
  let ?l = "dropWhile isspace s"
  have r: "rev (strip s) = dropWhile isspace (rev ?l)"
    by (simp add: strip_def rstrip_def lstrip_def)
  with False have "\<not> isspace (hd (rev (strip s)))"
    by (metis hd_dropWhile rev_is_Nil_conv)
  then have la: "\<not> isspace (last (strip s))"
    using False by (simp add: hd_rev)
  have ne: "?l \<noteq> []"
    using False by (auto simp: strip_def rstrip_def lstrip_def dest: set_dropWhileD)
  then have nh: "\<not> isspace (hd ?l)"
    by (rule hd_dropWhile)
  obtain x xs where l: "?l = x # xs"
    using ne by (cases ?l) auto
  with nh have nx: "\<not> isspace x"
    by simp
  have "strip s = rev (dropWhile isspace (rev xs @ [x]))"
    by (simp add: strip_def rstrip_def lstrip_def l)
  also have "\<dots> = rev (dropWhile isspace (rev xs) @ [x])"
    using nx by (simp add: dropWhile_append3)
  finally have "hd (strip s) = x"
    by simp
  with nx la False show ?thesis by simp
qed

lemma startswith_prefix: "startswith s p = prefix p s"
  by (auto simp: startswith_def prefix_def) (metis append_eq_conv_conj)

lemma replace1_startswith:
  "startswith s old \<Longrightarrow> replace1 s old new = new @ drop (length old) s"
  by (cases s) (auto simp: startswith_def)

lemma strip_origin_eq:
  "strip_origin raw =
     map (\<lambda>b. drop (length ''origin/'') (strip b))
       (filter (\<lambda>b. startswith (strip b) ''origin/'') raw)"
  by (induction raw) (simp_all add: strip_origin_def replace1_startswith)

section \<open>The candidate list\<close>

text \<open>
  Claim C1. For every local branch list \<open>L\<close> and normalized remote branch list \<open>R\<close>, the
  candidate list that \<open>main\<close> computes consists of the elements of \<open>L\<close> that are not in
  \<open>R\<close> and are neither "main" nor "master", in the order of \<open>L\<close>: it is the filtered
  list, a subsequence of \<open>L\<close>, its elements are those of \<open>L\<close> minus those of \<open>R\<close> minus
  the two protected names, and "main" and "master" are never in it, whatever \<open>R\<close> holds.
\<close>

theorem only_local_is_local_minus_remote_minus_protected:
  "only_local L R = filter (\<lambda>b. b \<notin> set R \<and> b \<noteq> ''main'' \<and> b \<noteq> ''master'') L
   \<and> subseq (only_local L R) L
   \<and> set (only_local L R) = set L - set R - {''main'', ''master''}
   \<and> ''main'' \<notin> set (only_local L R)
   \<and> ''master'' \<notin> set (only_local L R)"
  by (auto simp: only_local_def)

theorem only_local_is_local_minus_remote_minus_protected_witness:
  "only_local [''main'', ''b'', ''a'', ''c'', ''master''] [''a''] = [''b'', ''c'']
   \<and> ''main'' \<notin> set (only_local [''main'', ''b'', ''a'', ''c'', ''master''] [''a''])"
  using only_local_is_local_minus_remote_minus_protected
    [of "[''main'', ''b'', ''a'', ''c'', ''master'']" "[''a'']"]
  by simp

section \<open>The remote listing\<close>

text \<open>
  Claim C3. For every raw remote-tracking listing, \<open>get_remote_branches\<close> keeps exactly
  the entries whose trimmed form begins with "origin/", in their order, and returns for
  each its trimmed form without that leading qualifier; entries under any other remote
  are dropped. On the listing of the repository's test the result is "main", "feature/x".
\<close>

theorem get_remote_branches_keeps_origin_entries:
  "strip_origin raw =
     map (\<lambda>b. drop (length ''origin/'') (strip b))
       (filter (\<lambda>b. startswith (strip b) ''origin/'') raw)
   \<and> (run_git_command tool [''branch'', ''-r'', ''--format'', ''%(refname:short)''] repo_dir True s
         = (Inr raw, s')
       \<longrightarrow> get_remote_branches tool repo_dir s
         = (Inr (map (\<lambda>b. drop (length ''origin/'') (strip b))
                  (filter (\<lambda>b. startswith (strip b) ''origin/'') raw)), s'))
   \<and> strip_origin [''origin/main'', '' origin/feature/x '', ''upstream/dev'', ''random/branch'']
       = [''main'', ''feature/x'']"
proof -
  have "strip_origin [''origin/main'', '' origin/feature/x '', ''upstream/dev'', ''random/branch'']
       = [''main'', ''feature/x'']"
    by (simp add: strip_origin_eq) (simp add: strip_eval startswith_def)
  moreover have "run_git_command tool [''branch'', ''-r'', ''--format'', ''%(refname:short)''] repo_dir True s
         = (Inr raw, s')
       \<longrightarrow> get_remote_branches tool repo_dir s = (Inr (strip_origin raw), s')"
    by (simp add: get_remote_branches_def)
  ultimately show ?thesis
    unfolding strip_origin_eq [symmetric] by blast
qed

theorem get_remote_branches_keeps_origin_entries_witness:
  "get_remote_branches
     (table_tool [([''git'', ''-C'', ''X:/repo'', ''branch'', ''-r'', ''--format'', ''%(refname:short)''], 0,
        ''origin/main\<newline> origin/feature/x \<newline>upstream/dev\<newline>random/branch\<newline>'')])
     ''X:/repo'' (init [])
   = (Inr [''main'', ''feature/x''],
      \<lparr>world = (), stdin = [],
       trace = [Run [''git'', ''-C'', ''X:/repo'', ''branch'', ''-r'', ''--format'', ''%(refname:short)'']]\<rparr>)"
  using get_remote_branches_keeps_origin_entries
    [of "[''origin/main'', '' origin/feature/x '', ''upstream/dev'', ''random/branch'']"
        "table_tool [([''git'', ''-C'', ''X:/repo'', ''branch'', ''-r'', ''--format'', ''%(refname:short)''], 0,
           ''origin/main\<newline> origin/feature/x \<newline>upstream/dev\<newline>random/branch\<newline>'')]"
        "''X:/repo''" "init []"
        "\<lparr>world = (), stdin = [],
          trace = [Run [''git'', ''-C'', ''X:/repo'', ''branch'', ''-r'', ''--format'', ''%(refname:short)'']]\<rparr>"]
  by (simp add: run_git_command_def subprocess_run_def table_tool_def init_def
      strip_eval splitlines_eval startswith_def)

text \<open>
  Claim C8, as the specification states it: every name in the result of
  \<open>get_remote_branches\<close> is non-empty and does not begin with "origin/". The entries
  "origin/" and "origin/origin/x" refute it: one qualifier is removed, once.
\<close>

theorem normalized_name_counterexample:
  "strip_origin [''origin/'', ''origin/origin/x''] = [[], ''origin/x'']
   \<and> \<not> normalized_name []
   \<and> \<not> normalized_name ''origin/x''"
  by (simp add: strip_origin_eq) (simp add: strip_eval startswith_def normalized_name_def)

text \<open>
  Claim C8, amended. A name \<open>n\<close> is in the result exactly when "origin/" followed by
  \<open>n\<close> is the trimmed form of a raw entry: one leading qualifier is removed, and no more.
  So all names of the result are non-empty and free of the prefix "origin/" exactly when
  no raw entry trims to "origin/" itself or to a text that begins "origin/origin/".
\<close>

theorem strip_origin_removes_one_qualifier:
  "(n \<in> set (strip_origin raw) \<longleftrightarrow> (\<exists>b\<in>set raw. strip b = ''origin/'' @ n))
   \<and> (list_all normalized_name (strip_origin raw) \<longleftrightarrow>
        (\<forall>b\<in>set raw. strip b \<noteq> ''origin/'' \<and> \<not> startswith (strip b) ''origin/origin/''))"
proof -
  have mem: "\<And>n. n \<in> set (strip_origin raw) \<longleftrightarrow> (\<exists>b\<in>set raw. strip b = ''origin/'' @ n)"
    unfolding strip_origin_eq startswith_prefix
    by (auto simp: prefix_def image_iff)
  have norm: "\<And>n. normalized_name n \<longleftrightarrow>
      ''origin/'' @ n \<noteq> ''origin/'' \<and> \<not> startswith (''origin/'' @ n) ''origin/origin/''"
    unfolding normalized_name_def startswith_prefix by simp
  have "list_all normalized_name (strip_origin raw) \<longleftrightarrow>
        (\<forall>n. (\<exists>b\<in>set raw. strip b = ''origin/'' @ n) \<longrightarrow> normalized_name n)"
    unfolding list_all_iff using mem by blast
  also have "\<dots> \<longleftrightarrow>
        (\<forall>b\<in>set raw. strip b \<noteq> ''origin/'' \<and> \<not> startswith (strip b) ''origin/origin/'')"
  proof (intro iffI ballI allI impI)
    fix b
    assume h: "\<forall>n. (\<exists>b\<in>set raw. strip b = ''origin/'' @ n) \<longrightarrow> normalized_name n"
      and b: "b \<in> set raw"
    show "strip b \<noteq> ''origin/'' \<and> \<not> startswith (strip b) ''origin/origin/''"
    proof (cases "startswith (strip b) ''origin/''")
      case True
      then obtain n where n: "strip b = ''origin/'' @ n"
        unfolding startswith_prefix prefix_def by blast
      with h b have "normalized_name n" by blast
      with n show ?thesis using norm by simp
    next
      case False
      then show ?thesis
        unfolding startswith_prefix by (auto simp: prefix_def)
    qed
  next
    fix n
    assume h: "\<forall>b\<in>set raw. strip b \<noteq> ''origin/'' \<and> \<not> startswith (strip b) ''origin/origin/''"
      and "\<exists>b\<in>set raw. strip b = ''origin/'' @ n"
    then obtain b where "b \<in> set raw" and "strip b = ''origin/'' @ n" by blast
    with h show "normalized_name n" using norm [of n] by metis
  qed
  finally show ?thesis using mem by blast
qed

theorem strip_origin_removes_one_qualifier_witness:
  "''feature/x'' \<in> set (strip_origin [''origin/main'', '' origin/feature/x '', ''upstream/dev''])
   \<and> list_all normalized_name (strip_origin [''origin/main'', '' origin/feature/x '', ''upstream/dev''])"
  using strip_origin_removes_one_qualifier
    [of "''feature/x''" "[''origin/main'', '' origin/feature/x '', ''upstream/dev'']"]
  by (simp add: strip_eval startswith_def)

section \<open>The command runner\<close>

lemma run_git_command_ok:
  "tool (world s) ([''git'', ''-C'', repo_dir] @ args) = (0, out, w') \<Longrightarrow>
   run_git_command tool args repo_dir capture s =
     (Inr (if capture then splitlines (strip out) else []),
      s\<lparr>world := w', trace := trace s @ [Run ([''git'', ''-C'', repo_dir] @ args)]\<rparr>)"
  by (simp add: run_git_command_def subprocess_run_def)

lemma run_git_command_fail:
  "tool (world s) ([''git'', ''-C'', repo_dir] @ args) = (rc, out, w') \<Longrightarrow> rc \<noteq> 0 \<Longrightarrow>
   run_git_command tool args repo_dir capture s =
     (Inl (CalledProcessError ([''git'', ''-C'', repo_dir] @ args) rc),
      s\<lparr>world := w', trace := trace s @ [Run ([''git'', ''-C'', repo_dir] @ args)]\<rparr>)"
  by (simp add: run_git_command_def subprocess_run_def)

text \<open>
  Claim C7, as the specification states it: in capturing mode the runner returns
  non-empty trimmed lines. The output "a ", an empty line, " b" refutes it: the lines
  in the middle of the output keep their whitespace and may be empty.
\<close>

theorem capture_lines_counterexample:
  "fst (run_git_command
         (table_tool [([''git'', ''-C'', ''r'', ''branch''], 0, ''a \<newline>\<newline> b\<newline>'')])
         [''branch''] ''r'' True (init []))
     = Inr [''a '', [], '' b'']
   \<and> \<not> nonempty_trimmed ''a ''
   \<and> \<not> nonempty_trimmed []
   \<and> \<not> nonempty_trimmed '' b''"
  by (simp add: run_git_command_def subprocess_run_def table_tool_def init_def
      nonempty_trimmed_def strip_eval splitlines_eval)

text \<open>
  Claim C7, amended. When the tool exits with status 0 and output \<open>out\<close>, the runner in
  capturing mode returns the lines of the trimmed output, split at the line boundaries:
  in order they hold exactly the characters of the trimmed output that are not line
  boundaries, and no line holds a boundary. No line is trimmed or dropped on its own:
  what the trimming of the whole output gives is that the result is empty when the
  trimmed output is, and otherwise the first line is non-empty and starts with a
  character that is not whitespace and the last line is non-empty and ends with one.
\<close>

theorem capture_returns_lines_of_trimmed_output:
  assumes "tool (world s) ([''git'', ''-C'', repo_dir] @ args) = (0, out, w')"
  shows "fst (run_git_command tool args repo_dir True s) = Inr (splitlines (strip out))
    \<and> concat (splitlines (strip out)) = filter (\<lambda>c. \<not> is_linebreak c) (strip out)
    \<and> (\<forall>l\<in>set (splitlines (strip out)). \<forall>c\<in>set l. \<not> is_linebreak c)
    \<and> (strip out = [] \<longrightarrow> splitlines (strip out) = [])
    \<and> (strip out \<noteq> [] \<longrightarrow>
          splitlines (strip out) \<noteq> []
          \<and> hd (splitlines (strip out)) \<noteq> []
          \<and> \<not> isspace (hd (hd (splitlines (strip out))))
          \<and> last (splitlines (strip out)) \<noteq> []
          \<and> \<not> isspace (last (last (splitlines (strip out)))))"
proof -
  let ?t = "strip out"
  have a: "fst (run_git_command tool args repo_dir True s) = Inr (splitlines ?t)"
    using assms by (simp add: run_git_command_def subprocess_run_def)
  have b: "\<forall>l\<in>set (splitlines ?t). \<forall>c\<in>set l. \<not> is_linebreak c"
    using splitlines_no_linebreak by blast
  have c: "?t = [] \<longrightarrow> splitlines ?t = []"
    by (simp add: splitlines_Nil)
  have d: "splitlines ?t \<noteq> []
          \<and> hd (splitlines ?t) \<noteq> [] \<and> \<not> isspace (hd (hd (splitlines ?t)))
          \<and> last (splitlines ?t) \<noteq> [] \<and> \<not> isspace (last (last (splitlines ?t)))"
    if ne: "?t \<noteq> []"
  proof -
    from strip_ends [of out] ne have h: "\<not> isspace (hd ?t)" and l: "\<not> isspace (last ?t)"
      by simp_all
    then have nh: "\<not> is_linebreak (hd ?t)" and nl: "\<not> is_linebreak (last ?t)"
      using is_linebreak_isspace by blast+
    obtain x xs where t: "?t = x # xs"
      using ne by (cases ?t) auto
    have "hd (splitlines ?t) = takeWhile (\<lambda>c. \<not> is_linebreak c) ?t"
      using splitlines_hd [OF ne] by simp
    also have "\<dots> = x # takeWhile (\<lambda>c. \<not> is_linebreak c) xs"
      using nh unfolding t by simp
    finally have "hd (splitlines ?t) \<noteq> [] \<and> hd (hd (splitlines ?t)) = hd ?t"
      unfolding t by simp
    with h splitlines_last [OF ne nl] l show ?thesis by simp
  qed
  from a b c d concat_splitlines [of ?t] show ?thesis by blast
qed

theorem capture_returns_lines_of_trimmed_output_witness:
  "fst (run_git_command
         (table_tool [([''git'', ''-C'', ''/repo'', ''status''], 0, ''line1\<newline>line2\<newline>'')])
         [''status''] ''/repo'' True (init []))
     = Inr [''line1'', ''line2'']"
  using capture_returns_lines_of_trimmed_output
    [of "table_tool [([''git'', ''-C'', ''/repo'', ''status''], 0, ''line1\<newline>line2\<newline>'')]"
        "init []" "''/repo''" "[''status'']" "''line1\<newline>line2\<newline>''" "()"]
  by (simp add: table_tool_def init_def strip_eval splitlines_eval)

section \<open>The deleter and the prompt loop, step by step\<close>

lemma delete_branch_result:
  "delete_branch tool branch repo_dir force s =
     (case tool (world s) (delete_cmd branch repo_dir force) of
        (rc, out, w') \<Rightarrow>
          (Inr (),
           s\<lparr>world := w',
             trace := trace s @ [Run (delete_cmd branch repo_dir force),
                       Print (if rc \<noteq> 0 then delete_failed_msg branch else deleted_msg branch)]\<rparr>))"
  by (simp add: delete_branch_def subprocess_run_def py_print_def split: prod.splits)

lemma delete_branch_trace:
  "\<exists>m. fst (delete_branch tool branch repo_dir force s) = Inr ()
     \<and> stdin (snd (delete_branch tool branch repo_dir force s)) = stdin s
     \<and> trace (snd (delete_branch tool branch repo_dir force s))
         = trace s @ [Run (delete_cmd branch repo_dir force), Print m]
     \<and> (m = delete_failed_msg branch \<or> m = deleted_msg branch)"
  by (cases "tool (world s) (delete_cmd branch repo_dir force)")
     (simp add: delete_branch_result)

lemma while_loop_Nil:
  "stdin s = [] \<Longrightarrow>
     while_loop tool branch repo_dir sf s
       = (Inl EOFError, s\<lparr>trace := trace s @ [Prompt (prompt_msg branch)]\<rparr>)"
  by (subst while_loop.simps) (simp add: py_input_def)

lemma while_loop_Cons:
  "stdin s = l # ls \<Longrightarrow>
     while_loop tool branch repo_dir sf s =
       (if choice_of l = ''y''
        then delete_branch tool branch repo_dir (\<not> sf)
               (s\<lparr>stdin := ls, trace := trace s @ [Prompt (prompt_msg branch)]\<rparr>)
        else if choice_of l = ''n'' \<or> choice_of l = []
        then (Inr (), s\<lparr>stdin := ls,
                trace := trace s @ [Prompt (prompt_msg branch), Print (keeping_msg branch)]\<rparr>)
        else while_loop tool branch repo_dir sf
               (s\<lparr>stdin := ls,
                  trace := trace s @ [Prompt (prompt_msg branch), Print guidance_msg]\<rparr>))"
  by (subst while_loop.simps) (simp add: py_input_def py_print_def)

lemma yes_first_iff:
  "yes_first ins \<longleftrightarrow>
     (\<exists>i<length ins. choice_of (ins ! i) = ''y''
        \<and> (\<forall>j<i. choice_of (ins ! j) \<noteq> ''n'' \<and> choice_of (ins ! j) \<noteq> []))"
proof (induction ins)
  case Nil
  show ?case by simp
next
  case (Cons l ls)
  show ?case
  proof (cases "choice_of l = ''y''")
    case True
    then have "yes_first (l # ls)" by simp
    moreover have "\<exists>i<length (l # ls). choice_of ((l # ls) ! i) = ''y''
        \<and> (\<forall>j<i. choice_of ((l # ls) ! j) \<noteq> ''n'' \<and> choice_of ((l # ls) ! j) \<noteq> [])"
      using True by (intro exI [of _ 0]) simp
    ultimately show ?thesis by blast
  next
    case False
    show ?thesis
    proof (cases "choice_of l = ''n'' \<or> choice_of l = []")
      case True
      then have "\<not> yes_first (l # ls)" by auto
      moreover have "\<not> (\<exists>i<length (l # ls). choice_of ((l # ls) ! i) = ''y''
        \<and> (\<forall>j<i. choice_of ((l # ls) ! j) \<noteq> ''n'' \<and> choice_of ((l # ls) ! j) \<noteq> []))"
      proof
        assume "\<exists>i<length (l # ls). choice_of ((l # ls) ! i) = ''y''
          \<and> (\<forall>j<i. choice_of ((l # ls) ! j) \<noteq> ''n'' \<and> choice_of ((l # ls) ! j) \<noteq> [])"
        then obtain i where y: "choice_of ((l # ls) ! i) = ''y''"
          and b: "\<forall>j<i. choice_of ((l # ls) ! j) \<noteq> ''n'' \<and> choice_of ((l # ls) ! j) \<noteq> []"
          by blast
        from y False have "0 < i" by (cases i) auto
        with b have "choice_of ((l # ls) ! 0) \<noteq> ''n'' \<and> choice_of ((l # ls) ! 0) \<noteq> []" by blast
        with True show False by simp
      qed
      ultimately show ?thesis by blast
    next
      case other: False
      have "yes_first (l # ls) = yes_first ls"
        using False other by simp
      also have "\<dots> \<longleftrightarrow> (\<exists>i<length ls. choice_of (ls ! i) = ''y''
        \<and> (\<forall>j<i. choice_of (ls ! j) \<noteq> ''n'' \<and> choice_of (ls ! j) \<noteq> []))"
        by (rule Cons.IH)
      also have "\<dots> \<longleftrightarrow> (\<exists>i<length (l # ls). choice_of ((l # ls) ! i) = ''y''
        \<and> (\<forall>j<i. choice_of ((l # ls) ! j) \<noteq> ''n'' \<and> choice_of ((l # ls) ! j) \<noteq> []))"
        using False other by (simp add: Ex_less_Suc2 All_less_Suc2)
      finally show ?thesis .
    qed
  qed
qed

lemma deleter_calls_append:
  "deleter_calls b r (xs @ ys) = deleter_calls b r xs + deleter_calls b r ys"
  by (simp add: deleter_calls_def)

lemma delete_cmd_inject:
  "delete_cmd b r f = delete_cmd b' r' f' \<longleftrightarrow> b = b' \<and> r = r' \<and> f = f'"
  by (auto simp: delete_cmd_def)

lemma while_loop_deleter_calls:
  "stdin s = ins \<Longrightarrow>
   deleter_calls branch repo_dir (trace (snd (while_loop tool branch repo_dir sf s)))
     = deleter_calls branch repo_dir (trace s) + (if yes_first ins then 1 else 0)"
proof (induction ins arbitrary: s)
  case Nil
  then show ?case
    by (simp add: while_loop_Nil deleter_calls_append) (simp add: deleter_calls_def)
next
  case (Cons l ls)
  let ?s1 = "s\<lparr>stdin := ls, trace := trace s @ [Prompt (prompt_msg branch)]\<rparr>"
  let ?s2 = "s\<lparr>stdin := ls, trace := trace s @ [Prompt (prompt_msg branch), Print guidance_msg]\<rparr>"
  consider (yes) "choice_of l = ''y''"
    | (no) "choice_of l \<noteq> ''y''" "choice_of l = ''n'' \<or> choice_of l = []"
    | (other) "choice_of l \<noteq> ''y''" "\<not> (choice_of l = ''n'' \<or> choice_of l = [])"
    by blast
  then show ?case
  proof cases
    case yes
    obtain m where "trace (snd (delete_branch tool branch repo_dir (\<not> sf) ?s1))
         = trace ?s1 @ [Run (delete_cmd branch repo_dir (\<not> sf)), Print m]"
      using delete_branch_trace [of tool branch repo_dir "\<not> sf" ?s1] by blast
    then show ?thesis
      using yes Cons.prems
      by (simp add: while_loop_Cons deleter_calls_append)
         (auto simp: deleter_calls_def delete_cmd_inject)
  next
    case no
    then show ?thesis
      using Cons.prems
      by (simp add: while_loop_Cons deleter_calls_append) (auto simp: deleter_calls_def)
  next
    case other
    have "deleter_calls branch repo_dir (trace (snd (while_loop tool branch repo_dir sf ?s2)))
      = deleter_calls branch repo_dir (trace ?s2) + (if yes_first ls then 1 else 0)"
      by (rule Cons.IH) simp
    moreover have "deleter_calls branch repo_dir (trace ?s2) = deleter_calls branch repo_dir (trace s)"
      by (simp add: deleter_calls_append) (simp add: deleter_calls_def)
    ultimately show ?thesis
      using other Cons.prems by (simp add: while_loop_Cons)
  qed
qed

section \<open>The interactive loop\<close>

text \<open>
  Claim C2. For every candidate branch and every finite input sequence, the prompt loop
  runs the deleter exactly once if a line whose trimmed, lowercased form is "y" is read
  before any line whose form is "n" or empty, and not at all otherwise. A line that
  trims to "n" or to nothing keeps the branch: the keeping message is printed and the
  deleter is not run. Any other line prints the guidance line and prompts again for the
  same candidate, so that a "y" that follows settles that candidate by one deletion.
\<close>

theorem while_loop_deletes_iff_yes_before_no:
  "deleter_calls branch repo_dir (trace (snd (while_loop tool branch repo_dir sf s)))
     = deleter_calls branch repo_dir (trace s)
       + (if (\<exists>i<length (stdin s). choice_of (stdin s ! i) = ''y''
                \<and> (\<forall>j<i. choice_of (stdin s ! j) \<noteq> ''n'' \<and> choice_of (stdin s ! j) \<noteq> []))
          then 1 else 0)
   \<and> (\<forall>l ls. stdin s = l # ls \<and> (choice_of l = ''n'' \<or> choice_of l = []) \<longrightarrow>
         while_loop tool branch repo_dir sf s
           = (Inr (), s\<lparr>stdin := ls,
                trace := trace s @ [Prompt (prompt_msg branch), Print (keeping_msg branch)]\<rparr>))
   \<and> (\<forall>l ls. stdin s = l # ls
           \<and> choice_of l \<noteq> ''y'' \<and> choice_of l \<noteq> ''n'' \<and> choice_of l \<noteq> [] \<longrightarrow>
         while_loop tool branch repo_dir sf s
           = while_loop tool branch repo_dir sf
               (s\<lparr>stdin := ls,
                  trace := trace s @ [Prompt (prompt_msg branch), Print guidance_msg]\<rparr>))
   \<and> (\<forall>l l' ls. stdin s = l # l' # ls
           \<and> choice_of l \<noteq> ''y'' \<and> choice_of l \<noteq> ''n'' \<and> choice_of l \<noteq> []
           \<and> choice_of l' = ''y'' \<longrightarrow>
         while_loop tool branch repo_dir sf s
           = delete_branch tool branch repo_dir (\<not> sf)
               (s\<lparr>stdin := ls,
                  trace := trace s @ [Prompt (prompt_msg branch), Print guidance_msg,
                                     Prompt (prompt_msg branch)]\<rparr>))"
proof -
  have a: "deleter_calls branch repo_dir (trace (snd (while_loop tool branch repo_dir sf s)))
     = deleter_calls branch repo_dir (trace s) + (if yes_first (stdin s) then 1 else 0)"
    by (rule while_loop_deleter_calls) simp
  have b: "\<forall>l ls. stdin s = l # ls \<and> (choice_of l = ''n'' \<or> choice_of l = []) \<longrightarrow>
         while_loop tool branch repo_dir sf s
           = (Inr (), s\<lparr>stdin := ls,
                trace := trace s @ [Prompt (prompt_msg branch), Print (keeping_msg branch)]\<rparr>)"
    by (auto simp: while_loop_Cons)
  have c: "\<forall>l ls. stdin s = l # ls
           \<and> choice_of l \<noteq> ''y'' \<and> choice_of l \<noteq> ''n'' \<and> choice_of l \<noteq> [] \<longrightarrow>
         while_loop tool branch repo_dir sf s
           = while_loop tool branch repo_dir sf
               (s\<lparr>stdin := ls,
                  trace := trace s @ [Prompt (prompt_msg branch), Print guidance_msg]\<rparr>)"
    by (simp add: while_loop_Cons)
  have d: "\<forall>l l' ls. stdin s = l # l' # ls
           \<and> choice_of l \<noteq> ''y'' \<and> choice_of l \<noteq> ''n'' \<and> choice_of l \<noteq> []
           \<and> choice_of l' = ''y'' \<longrightarrow>
         while_loop tool branch repo_dir sf s
           = delete_branch tool branch repo_dir (\<not> sf)
               (s\<lparr>stdin := ls,
                  trace := trace s @ [Prompt (prompt_msg branch), Print guidance_msg,
                                     Prompt (prompt_msg branch)]\<rparr>)"
  proof (intro allI impI)
    fix l l' ls
    assume h: "stdin s = l # l' # ls
           \<and> choice_of l \<noteq> ''y'' \<and> choice_of l \<noteq> ''n'' \<and> choice_of l \<noteq> []
           \<and> choice_of l' = ''y''"
    let ?s2 = "s\<lparr>stdin := l' # ls,
                  trace := trace s @ [Prompt (prompt_msg branch), Print guidance_msg]\<rparr>"
    have "while_loop tool branch repo_dir sf s = while_loop tool branch repo_dir sf ?s2"
      using h by (simp add: while_loop_Cons)
    also have "\<dots> = delete_branch tool branch repo_dir (\<not> sf)
               (?s2\<lparr>stdin := ls, trace := trace ?s2 @ [Prompt (prompt_msg branch)]\<rparr>)"
      using h by (subst while_loop_Cons [of ?s2 l' ls]) simp_all
    finally show "while_loop tool branch repo_dir sf s
           = delete_branch tool branch repo_dir (\<not> sf)
               (s\<lparr>stdin := ls,
                  trace := trace s @ [Prompt (prompt_msg branch), Print guidance_msg,
                                     Prompt (prompt_msg branch)]\<rparr>)"
      by simp
  qed
  from a b c d show ?thesis
    unfolding yes_first_iff by blast
qed

lemma choice_of_eval:
  "choice_of ''maybe'' = ''maybe''" "choice_of ''y'' = ''y''" "choice_of '' y '' = ''y''"
  "choice_of ''n'' = ''n''" "choice_of '' '' = []"
  by (simp_all add: choice_of_def lower_def lower_char_def strip_eval)

theorem while_loop_deletes_iff_yes_before_no_witness:
  "while_loop (table_tool []) ''f1'' ''C:/repo'' True (init [''maybe'', ''y''])
     = (Inr (),
        \<lparr>world = (), stdin = [],
         trace = [Prompt (prompt_msg ''f1''), Print guidance_msg, Prompt (prompt_msg ''f1''),
                  Run [''git'', ''-C'', ''C:/repo'', ''branch'', ''-d'', ''f1''],
                  Print (deleted_msg ''f1'')]\<rparr>)
   \<and> while_loop (table_tool []) ''f1'' ''C:/repo'' True (init ['' '', ''y''])
     = (Inr (),
        \<lparr>world = (), stdin = [''y''],
         trace = [Prompt (prompt_msg ''f1''), Print (keeping_msg ''f1'')]\<rparr>)"
  using while_loop_deletes_iff_yes_before_no
      [of "''f1''" "''C:/repo''" "table_tool []" True "init [''maybe'', ''y'']"]
    while_loop_deletes_iff_yes_before_no
      [of "''f1''" "''C:/repo''" "table_tool []" True "init ['' '', ''y'']"]
  by (simp add: init_def choice_of_eval while_loop_Cons delete_branch_result delete_cmd_def
      table_tool_def)

section \<open>Failures\<close>

text \<open>
  Claim C5. For every repository path whose working-tree check exits with a non-zero
  status, \<open>main\<close> prints a message that contains the path and ends the process with
  exit status 1. The check is the only command run: no fetch, no listing, no deletion,
  and no line of input is read.
\<close>

theorem invalid_repo_exits_with_status_1:
  assumes "tool (world s) [''git'', ''-C'', repo a, ''rev-parse'', ''--is-inside-work-tree'']
             = (rc, out, w')"
    and "rc \<noteq> 0"
  shows "main tool a s
           = (SystemExit 1,
              s\<lparr>world := w',
                trace := trace s @ [Run [''git'', ''-C'', repo a, ''rev-parse'', ''--is-inside-work-tree''],
                                   Print (invalid_repo_msg (repo a))]\<rparr>)
         \<and> sublist (str (repo a)) (invalid_repo_msg (repo a))"
proof -
  have "run_git_command tool [''rev-parse'', ''--is-inside-work-tree''] (repo a) True s
      = (Inl (CalledProcessError ([''git'', ''-C'', repo a] @ [''rev-parse'', ''--is-inside-work-tree'']) rc),
         s\<lparr>world := w',
           trace := trace s @ [Run ([''git'', ''-C'', repo a] @ [''rev-parse'', ''--is-inside-work-tree''])]\<rparr>)"
    using assms by (intro run_git_command_fail) simp_all
  then have "main tool a s
           = (SystemExit 1,
              s\<lparr>world := w',
                trace := trace s @ [Run [''git'', ''-C'', repo a, ''rev-parse'', ''--is-inside-work-tree''],
                                   Print (invalid_repo_msg (repo a))]\<rparr>)"
    by (simp add: main_def Let_def py_print_def)
  moreover have "sublist (str (repo a)) (invalid_repo_msg (repo a))"
    unfolding invalid_repo_msg_def
    by (metis append.assoc sublist_appendI)
  ultimately show ?thesis by blast
qed

theorem invalid_repo_exits_with_status_1_witness:
  "main (table_tool [([''git'', ''-C'', ''C:/not-a-repo'', ''rev-parse'', ''--is-inside-work-tree''], 128, [])])
     \<lparr>repo = ''C:/not-a-repo'', safe = False\<rparr> (init [''y''])
   = (SystemExit 1,
      \<lparr>world = (), stdin = [''y''],
       trace = [Run [''git'', ''-C'', ''C:/not-a-repo'', ''rev-parse'', ''--is-inside-work-tree''],
                Print (invalid_repo_msg ''C:/not-a-repo'')]\<rparr>)"
  using invalid_repo_exits_with_status_1
    [of "table_tool [([''git'', ''-C'', ''C:/not-a-repo'', ''rev-parse'', ''--is-inside-work-tree''], 128, [])]"
        "init [''y'']" "\<lparr>repo = ''C:/not-a-repo'', safe = False\<rparr>" 128 "[]" "()"]
  by (simp add: table_tool_def init_def)

text \<open>
  Claim C9. If the working-tree check succeeds and the fetch with pruning exits with a
  non-zero status, the \<open>CalledProcessError\<close> of the fetch leaves \<open>main\<close> uncaught and
  ends the process: after the check, the start message and the fetch nothing more is
  done, so no listing is made, no candidate computed and no prompt written.
\<close>

theorem fetch_failure_propagates:
  assumes "tool (world s) [''git'', ''-C'', repo a, ''rev-parse'', ''--is-inside-work-tree'']
             = (0, out, w1)"
    and "tool w1 [''git'', ''-C'', repo a, ''fetch'', ''--prune''] = (rc, out2, w2)"
    and "rc \<noteq> 0"
  shows "main tool a s
           = (Uncaught (CalledProcessError [''git'', ''-C'', repo a, ''fetch'', ''--prune''] rc),
              s\<lparr>world := w2,
                trace := trace s @ [Run [''git'', ''-C'', repo a, ''rev-parse'', ''--is-inside-work-tree''],
                                   Print fetching_msg,
                                   Run [''git'', ''-C'', repo a, ''fetch'', ''--prune'']]\<rparr>)"
proof -
  have v: "run_git_command tool [''rev-parse'', ''--is-inside-work-tree''] (repo a) True s
      = (Inr (splitlines (strip out)),
         s\<lparr>world := w1,
           trace := trace s @ [Run [''git'', ''-C'', repo a, ''rev-parse'', ''--is-inside-work-tree'']]\<rparr>)"
    using assms(1) by (simp add: run_git_command_def subprocess_run_def)
  have f: "run_git_command tool [''fetch'', ''--prune''] (repo a) False
         (s\<lparr>world := w1,
            trace := trace s @ [Run [''git'', ''-C'', repo a, ''rev-parse'', ''--is-inside-work-tree''],
                               Print fetching_msg]\<rparr>)
      = (Inl (CalledProcessError [''git'', ''-C'', repo a, ''fetch'', ''--prune''] rc),
         s\<lparr>world := w2,
           trace := trace s @ [Run [''git'', ''-C'', repo a, ''rev-parse'', ''--is-inside-work-tree''],
                              Print fetching_msg,
                              Run [''git'', ''-C'', repo a, ''fetch'', ''--prune'']]\<rparr>)"
    using assms(2,3) by (simp add: run_git_command_def subprocess_run_def)
  show ?thesis
    by (simp add: main_def Let_def v py_print_def f)
qed

theorem fetch_failure_propagates_witness:
  "main (table_tool [([''git'', ''-C'', ''r'', ''fetch'', ''--prune''], 1, [])])
     \<lparr>repo = ''r'', safe = False\<rparr> (init [''y''])
   = (Uncaught (CalledProcessError [''git'', ''-C'', ''r'', ''fetch'', ''--prune''] 1),
      \<lparr>world = (), stdin = [''y''],
       trace = [Run [''git'', ''-C'', ''r'', ''rev-parse'', ''--is-inside-work-tree''],
                Print fetching_msg,
                Run [''git'', ''-C'', ''r'', ''fetch'', ''--prune'']]\<rparr>)"
  using fetch_failure_propagates
    [of "table_tool [([''git'', ''-C'', ''r'', ''fetch'', ''--prune''], 1, [])]"
        "init [''y'']" "\<lparr>repo = ''r'', safe = False\<rparr>" "[]" "()" 1 "[]" "()"]
  by (simp add: table_tool_def init_def)

text \<open>
  Claim C6. For every branch name, when the deletion command exits with a non-zero
  status, \<open>delete_branch\<close> prints a warning that names the branch and returns without
  raising; the loop of \<open>main\<close> then goes on with the next candidate.
\<close>

theorem delete_failure_is_reported_and_run_continues:
  "(tool (world s) (delete_cmd branch repo_dir force) = (rc, out, w') \<and> rc \<noteq> 0 \<longrightarrow>
      delete_branch tool branch repo_dir force s
        = (Inr (),
           s\<lparr>world := w',
             trace := trace s @ [Run (delete_cmd branch repo_dir force),
                                Print (delete_failed_msg branch)]\<rparr>))
   \<and> sublist (str branch) (delete_failed_msg branch)
   \<and> (tool (world s) (delete_cmd branch repo_dir (\<not> sf)) = (rc, out, w') \<and> rc \<noteq> 0
        \<and> stdin s = l # ls \<and> choice_of l = ''y'' \<longrightarrow>
      for_loop tool (branch # rest) repo_dir sf s
        = for_loop tool rest repo_dir sf
            (s\<lparr>world := w', stdin := ls,
               trace := trace s @ [Prompt (prompt_msg branch),
                                  Run (delete_cmd branch repo_dir (\<not> sf)),
                                  Print (delete_failed_msg branch)]\<rparr>))"
proof -
  have a: "tool (world s) (delete_cmd branch repo_dir force) = (rc, out, w') \<and> rc \<noteq> 0 \<longrightarrow>
      delete_branch tool branch repo_dir force s
        = (Inr (),
           s\<lparr>world := w',
             trace := trace s @ [Run (delete_cmd branch repo_dir force),
                                Print (delete_failed_msg branch)]\<rparr>)"
    by (simp add: delete_branch_result)
  have b: "sublist (str branch) (delete_failed_msg branch)"
    unfolding delete_failed_msg_def
    by (metis append.assoc sublist_appendI)
  have c: "tool (world s) (delete_cmd branch repo_dir (\<not> sf)) = (rc, out, w') \<and> rc \<noteq> 0
        \<and> stdin s = l # ls \<and> choice_of l = ''y'' \<longrightarrow>
      for_loop tool (branch # rest) repo_dir sf s
        = for_loop tool rest repo_dir sf
            (s\<lparr>world := w', stdin := ls,
               trace := trace s @ [Prompt (prompt_msg branch),
                                  Run (delete_cmd branch repo_dir (\<not> sf)),
                                  Print (delete_failed_msg branch)]\<rparr>)"
    by (cases s) (simp add: while_loop_Cons delete_branch_result)
  from a b c show ?thesis by blast
qed

theorem delete_failure_is_reported_and_run_continues_witness:
  "for_loop (table_tool [([''git'', ''-C'', ''r'', ''branch'', ''-D'', ''f1''], 1, [])])
      [''f1'', ''f2''] ''r'' False (init [''y'', ''n''])
   = (Inr (),
      \<lparr>world = (), stdin = [],
       trace = [Prompt (prompt_msg ''f1''),
                Run [''git'', ''-C'', ''r'', ''branch'', ''-D'', ''f1''],
                Print (delete_failed_msg ''f1''),
                Prompt (prompt_msg ''f2''),
                Print (keeping_msg ''f2'')]\<rparr>)"
  using delete_failure_is_reported_and_run_continues
    [of "table_tool [([''git'', ''-C'', ''r'', ''branch'', ''-D'', ''f1''], 1, [])]"
        "init [''y'', ''n'']" "''f1''" "''r''" True 1 "[]" "()" False "''y''" "[''n'']" "[''f2'']"]
  by (simp add: table_tool_def init_def delete_cmd_def choice_of_eval while_loop_Cons)

section \<open>What a run adds to the trace\<close>

lemma str_inject: "str a = str b \<longleftrightarrow> a = b"
  unfolding str_def by (rule inj_map_eq_map [OF inj_of_char])

lemma keeping_msg_inject: "keeping_msg a = keeping_msg b \<longleftrightarrow> a = b"
  by (simp add: keeping_msg_def str_inject)

lemma prompt_msg_inject: "prompt_msg a = prompt_msg b \<longleftrightarrow> a = b"
  by (auto simp: prompt_msg_def str_def dest: map_injective [OF _ inj_of_char])

lemma keeping_msg_distinct:
  "keeping_msg b' \<noteq> deleted_msg b"
  "keeping_msg b' \<noteq> delete_failed_msg b"
  "keeping_msg b' \<noteq> guidance_msg"
  by (simp_all add: keeping_msg_def deleted_msg_def delete_failed_msg_def guidance_msg_def str_def)

lemma resolutions_append:
  "resolutions b r (xs @ ys) = resolutions b r xs + resolutions b r ys"
  by (simp add: resolutions_def deleter_calls_append)

lemma resolutions_Nil: "resolutions b r [] = 0"
  by (simp add: resolutions_def deleter_calls_def)

lemma resolutions_delete:
  "m = delete_failed_msg b \<or> m = deleted_msg b \<Longrightarrow>
     resolutions b' r [Prompt p, Run (delete_cmd b r f), Print m] = (if b' = b then 1 else 0)"
  using keeping_msg_distinct(1,2) [of b' b]
  by (cases f) (auto simp: resolutions_def deleter_calls_def delete_cmd_inject)

lemma resolutions_keep:
  "resolutions b' r [Prompt p, Print (keeping_msg b)] = (if b' = b then 1 else 0)"
  by (auto simp: resolutions_def deleter_calls_def keeping_msg_inject)

lemma resolutions_guidance:
  "resolutions b' r [Prompt p, Print guidance_msg] = 0"
  using keeping_msg_distinct(3) [of b']
  by (auto simp: resolutions_def deleter_calls_def)

lemma while_loop_adds:
  "stdin s = ins \<Longrightarrow>
   \<exists>new. trace (snd (while_loop tool b r sf s)) = trace s @ new
     \<and> (\<forall>c. Run c \<in> set new \<longrightarrow> c = delete_cmd b r (\<not> sf))
     \<and> 1 \<le> count_list new (Prompt (prompt_msg b))
     \<and> (fst (while_loop tool b r sf s) = Inr () \<longrightarrow>
          (\<forall>b'. resolutions b' r new = (if b' = b then 1 else 0)))"
proof (induction ins arbitrary: s)
  case Nil
  then show ?case
    by (simp add: while_loop_Nil)
next
  case (Cons l ls)
  let ?p = "Prompt (prompt_msg b)"
  let ?s1 = "s\<lparr>stdin := ls, trace := trace s @ [?p]\<rparr>"
  let ?s2 = "s\<lparr>stdin := ls, trace := trace s @ [?p, Print guidance_msg]\<rparr>"
  consider (yes) "choice_of l = ''y''"
    | (no) "choice_of l \<noteq> ''y''" "choice_of l = ''n'' \<or> choice_of l = []"
    | (other) "choice_of l \<noteq> ''y''" "\<not> (choice_of l = ''n'' \<or> choice_of l = [])"
    by blast
  then show ?case
  proof cases
    case yes
    obtain m where m: "trace (snd (delete_branch tool b r (\<not> sf) ?s1))
         = trace ?s1 @ [Run (delete_cmd b r (\<not> sf)), Print m]"
        "m = delete_failed_msg b \<or> m = deleted_msg b"
      using delete_branch_trace [of tool b r "\<not> sf" ?s1] by blast
    have w: "while_loop tool b r sf s = delete_branch tool b r (\<not> sf) ?s1"
      using yes Cons.prems by (simp add: while_loop_Cons)
    let ?new = "[?p, Run (delete_cmd b r (\<not> sf)), Print m]"
    have "trace (snd (while_loop tool b r sf s)) = trace s @ ?new"
      unfolding w m(1) by simp
    moreover have "\<forall>c. Run c \<in> set ?new \<longrightarrow> c = delete_cmd b r (\<not> sf)"
      by simp
    moreover have "1 \<le> count_list ?new ?p"
      by simp
    moreover have "\<forall>b'. resolutions b' r ?new = (if b' = b then 1 else 0)"
      using resolutions_delete [OF m(2)] by blast
    ultimately show ?thesis by blast
  next
    case no
    let ?new = "[?p, Print (keeping_msg b)]"
    have "while_loop tool b r sf s = (Inr (), s\<lparr>stdin := ls, trace := trace s @ ?new\<rparr>)"
      using no Cons.prems by (simp add: while_loop_Cons)
    then have "trace (snd (while_loop tool b r sf s)) = trace s @ ?new"
      by simp
    moreover have "\<forall>c. Run c \<in> set ?new \<longrightarrow> c = delete_cmd b r (\<not> sf)"
      by simp
    moreover have "1 \<le> count_list ?new ?p"
      by simp
    moreover have "\<forall>b'. resolutions b' r ?new = (if b' = b then 1 else 0)"
      using resolutions_keep by blast
    ultimately show ?thesis by blast
  next
    case other
    have w: "while_loop tool b r sf s = while_loop tool b r sf ?s2"
      using other Cons.prems by (simp add: while_loop_Cons)
    have "stdin ?s2 = ls" by simp
    from Cons.IH [OF this] obtain new where
      n1: "trace (snd (while_loop tool b r sf ?s2)) = trace ?s2 @ new"
      and n2: "\<forall>c. Run c \<in> set new \<longrightarrow> c = delete_cmd b r (\<not> sf)"
      and n3: "1 \<le> count_list new ?p"
      and n4: "fst (while_loop tool b r sf ?s2) = Inr () \<longrightarrow>
          (\<forall>b'. resolutions b' r new = (if b' = b then 1 else 0))"
      by blast
    let ?new = "[?p, Print guidance_msg] @ new"
    have "trace (snd (while_loop tool b r sf s)) = trace s @ ?new"
      unfolding w n1 by simp
    moreover have "\<forall>c. Run c \<in> set ?new \<longrightarrow> c = delete_cmd b r (\<not> sf)"
      using n2 by simp
    moreover have "1 \<le> count_list ?new ?p"
      using n3 by simp
    moreover have "fst (while_loop tool b r sf s) = Inr () \<longrightarrow>
          (\<forall>b'. resolutions b' r ?new = (if b' = b then 1 else 0))"
      using n4 unfolding w resolutions_append resolutions_guidance by simp
    ultimately show ?thesis by blast
  qed
qed

lemma for_loop_adds:
  "\<exists>new. trace (snd (for_loop tool bs r sf s)) = trace s @ new
     \<and> (\<forall>c. Run c \<in> set new \<longrightarrow> (\<exists>b\<in>set bs. c = delete_cmd b r (\<not> sf)))
     \<and> (fst (for_loop tool bs r sf s) = Inr () \<longrightarrow>
          (\<forall>b'. count_list bs b' \<le> count_list new (Prompt (prompt_msg b'))
             \<and> resolutions b' r new = count_list bs b'))"
proof (induction bs arbitrary: s)
  case Nil
  show ?case by (simp add: resolutions_Nil)
next
  case (Cons b bs)
  obtain x s1 where w: "while_loop tool b r sf s = (x, s1)"
    by fastforce
  from while_loop_adds [of s "stdin s" tool b r sf] w obtain new where
    n1: "trace s1 = trace s @ new"
    and n2: "\<forall>c. Run c \<in> set new \<longrightarrow> c = delete_cmd b r (\<not> sf)"
    and n3: "1 \<le> count_list new (Prompt (prompt_msg b))"
    and n4: "x = Inr () \<longrightarrow> (\<forall>b'. resolutions b' r new = (if b' = b then 1 else 0))"
    by auto
  show ?case
  proof (cases x)
    case (Inl e)
    then have "for_loop tool (b # bs) r sf s = (Inl e, s1)"
      using w by simp
    with n1 n2 show ?thesis by auto
  next
    case (Inr u)
    then have f: "for_loop tool (b # bs) r sf s = for_loop tool bs r sf s1"
      using w by simp
    from Cons.IH [of s1] obtain new' where
      m1: "trace (snd (for_loop tool bs r sf s1)) = trace s1 @ new'"
      and m2: "\<forall>c. Run c \<in> set new' \<longrightarrow> (\<exists>b\<in>set bs. c = delete_cmd b r (\<not> sf))"
      and m3: "fst (for_loop tool bs r sf s1) = Inr () \<longrightarrow>
          (\<forall>b'. count_list bs b' \<le> count_list new' (Prompt (prompt_msg b'))
             \<and> resolutions b' r new' = count_list bs b')"
      by blast
    have "trace (snd (for_loop tool (b # bs) r sf s)) = trace s @ (new @ new')"
      unfolding f m1 n1 by simp
    moreover have "\<forall>c. Run c \<in> set (new @ new') \<longrightarrow> (\<exists>b'\<in>set (b # bs). c = delete_cmd b' r (\<not> sf))"
      using n2 m2 by auto
    moreover have "fst (for_loop tool (b # bs) r sf s) = Inr () \<longrightarrow>
          (\<forall>b'. count_list (b # bs) b' \<le> count_list (new @ new') (Prompt (prompt_msg b'))
             \<and> resolutions b' r (new @ new') = count_list (b # bs) b')"
    proof (intro impI allI)
      fix b'
      assume "fst (for_loop tool (b # bs) r sf s) = Inr ()"
      then have ok: "fst (for_loop tool bs r sf s1) = Inr ()"
        unfolding f .
      have r: "resolutions b' r new = (if b' = b then 1 else 0)"
        using n4 Inr by simp
      have c: "(if b' = b then 1 else 0) \<le> count_list new (Prompt (prompt_msg b'))"
        using n3 by simp
      from m3 ok have "count_list bs b' \<le> count_list new' (Prompt (prompt_msg b'))"
        and "resolutions b' r new' = count_list bs b'"
        by blast+
      with r c show "count_list (b # bs) b' \<le> count_list (new @ new') (Prompt (prompt_msg b'))
             \<and> resolutions b' r (new @ new') = count_list (b # bs) b'"
        by (auto simp: resolutions_append)
    qed
    ultimately show ?thesis by blast
  qed
qed

lemma run_git_command_adds:
  "run_git_command tool args r cap s = (x, s') \<Longrightarrow>
     trace s' = trace s @ [Run ([''git'', ''-C'', r] @ args)]"
  by (auto simp: run_git_command_def subprocess_run_def Let_def
      split: prod.splits if_splits sum.splits)

lemma get_local_branches_adds:
  "get_local_branches tool r s = (x, s') \<Longrightarrow>
     trace s' = trace s @ [Run [''git'', ''-C'', r, ''branch'', ''--format'', ''%(refname:short)'']]"
  unfolding get_local_branches_def by (drule run_git_command_adds) simp

lemma get_remote_branches_adds:
  "get_remote_branches tool r s = (x, s') \<Longrightarrow>
     trace s' = trace s @ [Run [''git'', ''-C'', r, ''branch'', ''-r'', ''--format'', ''%(refname:short)'']]"
  unfolding get_remote_branches_def
  by (auto split: prod.splits sum.splits dest!: run_git_command_adds)

lemma delete_cmd_not_fixed: "delete_cmd b r f \<notin> fixed_cmds r'"
  by (simp add: delete_cmd_def fixed_cmds_def)

lemma main_adds:
  "\<exists>new. trace (snd (main tool a s)) = trace s @ new
     \<and> (\<forall>c. Run c \<in> set new \<longrightarrow>
          c \<in> fixed_cmds (repo a) \<or> (\<exists>b. c = delete_cmd b (repo a) (\<not> safe a)))"
proof -
  let ?r = "repo a"
  let ?ok = "\<lambda>new. \<forall>c. Run c \<in> set new \<longrightarrow>
          c \<in> fixed_cmds ?r \<or> (\<exists>b. c = delete_cmd b ?r (\<not> safe a))"
  obtain x1 s1 where r1:
    "run_git_command tool [''rev-parse'', ''--is-inside-work-tree''] ?r True s = (x1, s1)"
    by fastforce
  have t1: "trace s1 = trace s @ [Run [''git'', ''-C'', ?r, ''rev-parse'', ''--is-inside-work-tree'']]"
    using run_git_command_adds [OF r1] by simp
  show ?thesis
  proof (cases x1)
    case (Inl e)
    then have "trace (snd (main tool a s)) = trace s1
        \<or> trace (snd (main tool a s)) = trace s1 @ [Print (invalid_repo_msg ?r)]"
      using r1 by (cases e) (simp_all add: main_def Let_def py_print_def)
    then show ?thesis
      unfolding t1 by (auto simp: fixed_cmds_def)
  next
    case v: (Inr y1)
    obtain x2 s2 where r2:
      "run_git_command tool [''fetch'', ''--prune''] ?r False (py_print fetching_msg s1) = (x2, s2)"
      by fastforce
    have t2: "trace s2 = trace s @ [Run [''git'', ''-C'', ?r, ''rev-parse'', ''--is-inside-work-tree''],
        Print fetching_msg, Run [''git'', ''-C'', ?r, ''fetch'', ''--prune'']]"
      using run_git_command_adds [OF r2] t1 by (simp add: py_print_def)
    show ?thesis
    proof (cases x2)
      case (Inl e)
      then have "main tool a s = (Uncaught e, s2)"
        using r1 v r2 by (simp add: main_def Let_def)
      then show ?thesis
        unfolding t2 [symmetric] using t2 by (auto simp: fixed_cmds_def)
    next
      case f: (Inr y2)
      obtain x3 s3 where r3:
        "get_local_branches tool ?r (py_print fetch_complete_msg s2) = (x3, s3)"
        by fastforce
      have t3: "trace s3 = trace s2 @ [Print fetch_complete_msg,
          Run [''git'', ''-C'', ?r, ''branch'', ''--format'', ''%(refname:short)'']]"
        using get_local_branches_adds [OF r3] by (simp add: py_print_def)
      show ?thesis
      proof (cases x3)
        case (Inl e)
        then have "main tool a s = (Uncaught e, s3)"
          using r1 v r2 f r3 by (simp add: main_def Let_def)
        then show ?thesis
          using t2 t3 by (auto simp: fixed_cmds_def)
      next
        case l: (Inr local_branches)
        obtain x4 s4 where r4: "get_remote_branches tool ?r s3 = (x4, s4)"
          by fastforce
        have t4: "trace s4 = trace s3
            @ [Run [''git'', ''-C'', ?r, ''branch'', ''-r'', ''--format'', ''%(refname:short)'']]"
          using get_remote_branches_adds [OF r4] by simp
        have pre: "\<exists>new. trace s4 = trace s @ new \<and> ?ok new"
          using t2 t3 t4 by (auto simp: fixed_cmds_def)
        show ?thesis
        proof (cases x4)
          case (Inl e)
          then have "main tool a s = (Uncaught e, s4)"
            using r1 v r2 f r3 l r4 by (simp add: main_def Let_def)
          then show ?thesis
            using pre by simp
        next
          case rm: (Inr remote_branches)
          let ?c = "only_local local_branches remote_branches"
          show ?thesis
          proof (cases "?c = []")
            case True
            then have "main tool a s = (Returned, py_print nothing_found_msg s4)"
              using r1 v r2 f r3 l r4 rm by (simp add: main_def Let_def)
            then have "trace (snd (main tool a s)) = trace s4 @ [Print nothing_found_msg]"
              by (simp add: py_print_def)
            with pre show ?thesis by auto
          next
            case False
            obtain x5 s5 where r5: "for_loop tool ?c ?r (safe a) s4 = (x5, s5)"
              by fastforce
            have m: "snd (main tool a s) = s5"
              using r1 v r2 f r3 l r4 rm False r5
              by (cases x5) (simp_all add: main_def Let_def)
            from for_loop_adds [of tool ?c ?r "safe a" s4] r5 obtain new' where
              n5: "trace s5 = trace s4 @ new'"
              and "\<forall>c. Run c \<in> set new' \<longrightarrow> (\<exists>b\<in>set ?c. c = delete_cmd b ?r (\<not> safe a))"
              by auto
            then have ok5: "?ok new'"
              by blast
            from pre obtain new where n4: "trace s4 = trace s @ new" and ok4: "?ok new"
              by blast
            have "trace (snd (main tool a s)) = trace s @ (new @ new')"
              unfolding m n5 n4 by simp
            moreover have "?ok (new @ new')"
              using ok4 ok5 by auto
            ultimately show ?thesis by blast
          qed
        qed
      qed
    qed
  qed
qed

section \<open>The deletion mode\<close>

text \<open>
  Claim C4. For every candidate confirmed with an input whose choice is "y", the prompt
  loop hands the branch to \<open>delete_branch\<close> with \<open>force\<close> the negation of the safe flag,
  and the command it runs is \<^verbatim>\<open>git -C repo branch -D name\<close> without the flag and
  \<^verbatim>\<open>git -C repo branch -d name\<close> with it. The mode is the same for every candidate
  of the run: every deletion command that a run of \<open>main\<close> adds to the trace is for the
  repository of the run and in the mode its safe flag selects.
\<close>

theorem confirmed_candidate_is_deleted_in_the_selected_mode:
  "(\<forall>l ls. stdin s = l # ls \<and> choice_of l = ''y'' \<longrightarrow>
      while_loop tool b r sf s
        = delete_branch tool b r (\<not> sf)
            (s\<lparr>stdin := ls, trace := trace s @ [Prompt (prompt_msg b)]\<rparr>)
      \<and> (\<exists>m. trace (snd (while_loop tool b r sf s))
            = trace s @ [Prompt (prompt_msg b),
                         Run [''git'', ''-C'', r, ''branch'', if sf then ''-d'' else ''-D'', b],
                         Print m]))
   \<and> (\<forall>b' r' f. Run (delete_cmd b' r' f) \<in> set (trace (snd (main tool a s0))) \<longrightarrow>
        Run (delete_cmd b' r' f) \<in> set (trace s0) \<or> (r' = repo a \<and> f = (\<not> safe a)))"
proof -
  have one: "while_loop tool b r sf s
        = delete_branch tool b r (\<not> sf)
            (s\<lparr>stdin := ls, trace := trace s @ [Prompt (prompt_msg b)]\<rparr>)
      \<and> (\<exists>m. trace (snd (while_loop tool b r sf s))
            = trace s @ [Prompt (prompt_msg b),
                         Run [''git'', ''-C'', r, ''branch'', if sf then ''-d'' else ''-D'', b],
                         Print m])"
    if h: "stdin s = l # ls \<and> choice_of l = ''y''" for l ls
  proof -
    let ?s1 = "s\<lparr>stdin := ls, trace := trace s @ [Prompt (prompt_msg b)]\<rparr>"
    have w: "while_loop tool b r sf s = delete_branch tool b r (\<not> sf) ?s1"
      using h by (simp add: while_loop_Cons)
    obtain m where "trace (snd (delete_branch tool b r (\<not> sf) ?s1))
         = trace ?s1 @ [Run (delete_cmd b r (\<not> sf)), Print m]"
      using delete_branch_trace [of tool b r "\<not> sf" ?s1] by blast
    then have "trace (snd (while_loop tool b r sf s))
            = trace s @ [Prompt (prompt_msg b),
                         Run [''git'', ''-C'', r, ''branch'', if sf then ''-d'' else ''-D'', b],
                         Print m]"
      unfolding w by (simp add: delete_cmd_def)
    with w show ?thesis by blast
  qed
  have all: "Run (delete_cmd b' r' f) \<in> set (trace s0) \<or> (r' = repo a \<and> f = (\<not> safe a))"
    if h: "Run (delete_cmd b' r' f) \<in> set (trace (snd (main tool a s0)))" for b' r' f
  proof -
    from main_adds [of tool a s0] obtain new where
      t: "trace (snd (main tool a s0)) = trace s0 @ new"
      and ok: "\<forall>c. Run c \<in> set new \<longrightarrow>
          c \<in> fixed_cmds (repo a) \<or> (\<exists>b. c = delete_cmd b (repo a) (\<not> safe a))"
      by blast
    from h t have "Run (delete_cmd b' r' f) \<in> set (trace s0) \<or> Run (delete_cmd b' r' f) \<in> set new"
      by simp
    then show ?thesis
    proof
      assume "Run (delete_cmd b' r' f) \<in> set (trace s0)"
      then show ?thesis ..
    next
      assume "Run (delete_cmd b' r' f) \<in> set new"
      with ok have "\<exists>b. delete_cmd b' r' f = delete_cmd b (repo a) (\<not> safe a)"
        using delete_cmd_not_fixed by blast
      then show ?thesis
        by (simp add: delete_cmd_inject)
    qed
  qed
  from one all show ?thesis by blast
qed

lemmas main_eval =
  main_def Let_def run_git_command_def subprocess_run_def table_tool_def init_def
  get_local_branches_def get_remote_branches_def strip_origin_def only_local_def py_print_def
  while_loop_Cons choice_of_eval delete_branch_result delete_cmd_def strip_eval splitlines_eval

theorem confirmed_candidate_is_deleted_in_the_selected_mode_witness:
  "main (table_tool [([''git'', ''-C'', ''C:/repo'', ''branch'', ''--format'', ''%(refname:short)''], 0,
                      ''main\<newline>feature/x\<newline>'')])
     \<lparr>repo = ''C:/repo'', safe = False\<rparr> (init [''y''])
   = (Returned,
      \<lparr>world = (), stdin = [],
       trace = [Run [''git'', ''-C'', ''C:/repo'', ''rev-parse'', ''--is-inside-work-tree''],
                Print fetching_msg,
                Run [''git'', ''-C'', ''C:/repo'', ''fetch'', ''--prune''],
                Print fetch_complete_msg,
                Run [''git'', ''-C'', ''C:/repo'', ''branch'', ''--format'', ''%(refname:short)''],
                Run [''git'', ''-C'', ''C:/repo'', ''branch'', ''-r'', ''--format'', ''%(refname:short)''],
                Prompt (prompt_msg ''feature/x''),
                Run [''git'', ''-C'', ''C:/repo'', ''branch'', ''-D'', ''feature/x''],
                Print (deleted_msg ''feature/x'')]\<rparr>)
   \<and> Run [''git'', ''-C'', ''C:/repo'', ''branch'', ''-D'', ''feature/x'']
       \<notin> set (trace (snd (main (table_tool [([''git'', ''-C'', ''C:/repo'', ''branch'', ''--format'', ''%(refname:short)''], 0,
                      ''main\<newline>feature/x\<newline>'')])
             \<lparr>repo = ''C:/repo'', safe = True\<rparr> (init [''y'']))))"
  using confirmed_candidate_is_deleted_in_the_selected_mode
    [of "init [''y'']" "table_tool [([''git'', ''-C'', ''C:/repo'', ''branch'', ''--format'', ''%(refname:short)''], 0,
                      ''main\<newline>feature/x\<newline>'')]"
        "''feature/x''" "''C:/repo''" True
        "\<lparr>repo = ''C:/repo'', safe = True\<rparr>" "init [''y'']"]
  by (simp add: main_eval)

section \<open>Repeated names\<close>

text \<open>
  Claim C10. The candidate computation keeps multiplicity: a name that is neither
  protected nor present remotely occurs in the candidate list as often as in the local
  listing (and any other name not at all). The loop treats each occurrence on its own:
  when it runs to its end, the trace has gained at least one prompt for the name per
  occurrence, and exactly one resolution (the keeping line or the deletion command) per
  occurrence.
\<close>

theorem duplicates_are_kept_and_prompted_separately:
  "count_list (only_local L R) b
     = (if b \<in> set R \<or> b = ''main'' \<or> b = ''master'' then 0 else count_list L b)
   \<and> (fst (for_loop tool cands r sf s) = Inr () \<longrightarrow>
        count_list (trace s) (Prompt (prompt_msg b)) + count_list cands b
          \<le> count_list (trace (snd (for_loop tool cands r sf s))) (Prompt (prompt_msg b))
        \<and> resolutions b r (trace (snd (for_loop tool cands r sf s)))
          = resolutions b r (trace s) + count_list cands b)"
proof -
  have "count_list (only_local L R) b
     = (if b \<in> set R \<or> b = ''main'' \<or> b = ''master'' then 0 else count_list L b)"
    by (induction L) (auto simp: only_local_def)
  moreover have "count_list (trace s) (Prompt (prompt_msg b)) + count_list cands b
          \<le> count_list (trace (snd (for_loop tool cands r sf s))) (Prompt (prompt_msg b))
        \<and> resolutions b r (trace (snd (for_loop tool cands r sf s)))
          = resolutions b r (trace s) + count_list cands b"
    if ok: "fst (for_loop tool cands r sf s) = Inr ()"
  proof -
    from for_loop_adds [of tool cands r sf s] ok obtain new where
      t: "trace (snd (for_loop tool cands r sf s)) = trace s @ new"
      and c: "count_list cands b \<le> count_list new (Prompt (prompt_msg b))"
      and n: "resolutions b r new = count_list cands b"
      by blast
    show ?thesis
      unfolding t using c n by (simp add: resolutions_append)
  qed
  ultimately show ?thesis by blast
qed

theorem duplicates_are_kept_and_prompted_separately_witness:
  "only_local [''a'', ''b'', ''a''] [''b''] = [''a'', ''a'']
   \<and> for_loop (table_tool []) (only_local [''a'', ''b'', ''a''] [''b'']) ''r'' False (init [''n'', ''y''])
     = (Inr (),
        \<lparr>world = (), stdin = [],
         trace = [Prompt (prompt_msg ''a''), Print (keeping_msg ''a''),
                  Prompt (prompt_msg ''a''), Run [''git'', ''-C'', ''r'', ''branch'', ''-D'', ''a''],
                  Print (deleted_msg ''a'')]\<rparr>)
   \<and> resolutions ''a'' ''r''
        (trace (snd (for_loop (table_tool []) (only_local [''a'', ''b'', ''a''] [''b'']) ''r'' False
           (init [''n'', ''y'']))))
     = 2"
  using duplicates_are_kept_and_prompted_separately
    [of "[''a'', ''b'', ''a'']" "[''b'']" "''a''" "table_tool []"
        "only_local [''a'', ''b'', ''a''] [''b'']" "''r''" False "init [''n'', ''y'']"]
  by (simp add: main_eval resolutions_Nil)

end
